theory Spec2Isabelle
  imports Main "HOL-Library.AList"
begin

section \<open>Values: times, durations, errors, contexts\<close>

text \<open>
  A Go \<open>time.Time\<close> is modelled as the instant it denotes, in nanoseconds since the Unix
  epoch (location and monotonic reading play no role in \<open>limiter.go\<close>). The zero value
  \<open>time.Time{}\<close> is January 1 of year 1, 00:00:00 UTC, that is 62135596800 seconds before
  the epoch. A \<open>time.Duration\<close> and an \<open>int64\<close> are modelled as \<open>int\<close>: \<open>limiter.go\<close> only
  compares them (\<open>min\<close>, \<open>max\<close>, \<open><=\<close>), so no operation of the file can overflow.
\<close>

type_synonym time = int
type_synonym Duration = int

definition zeroTime :: time where
  "zeroTime = - 62135596800 * 1000000000"

definition IsZero :: "time \<Rightarrow> bool" where
  "IsZero t = (t = zeroTime)"

definition After :: "time \<Rightarrow> time \<Rightarrow> bool" where
  "After t u = (u < t)"

definition MaxInt64 :: int where
  "MaxInt64 = 9223372036854775807"

text \<open>
  \<open>Name\<close> is the enum of limit names. Its declaration and its methods \<open>isValid\<close> and
  \<open>EnumString\<close> are not part of the files at hand, so both methods are parameters of the
  model (fields of \<open>Limiter\<close> below).
\<close>

type_synonym Name = int

text \<open>
  Go error values. The first block are the sentinels declared in \<open>limiter.go\<close>,
  \<open>ErrBucketNotFound\<close> is the sentinel of the source interface, \<open>InvalidNameError\<close> is the
  \<open>fmt.Errorf\<close> value built by \<open>getLimit\<close>. The second block are the errors
  \<open>resultForError\<close> in \<open>source_redis.go\<close> tells apart: \<open>redis.Nil\<close>, the two context
  sentinels, a \<open>net.Error\<close> with the value of its \<open>Timeout()\<close>, an error reply of the
  Redis server (a value of the interface \<open>redis.Error\<close>), any other leaf error, and an
  error wrapping another one (\<open>fmt.Errorf("...: %w", err)\<close>).
\<close>

datatype error =
    ErrInvalidCost
  | ErrInvalidCostForCheck
  | ErrInvalidCostOverLimit
  | errZeroBucketsInBatch
  | errLimitDisabled
  | ErrBucketNotFound
  | InvalidNameError Name
  | RedisNil
  | DeadlineExceeded
  | Canceled
  | NetError bool
  | RedisServerError string
  | OtherError string
  | Wrapped string error

text \<open>
  \<open>errors.Is\<close> of the Go standard library. A Go \<open>error\<close> is an interface value that may
  be \<open>nil\<close>, hence \<open>error option\<close>. With a \<open>nil\<close> operand \<open>errors.Is\<close> compares the two
  operands; otherwise it walks the chain of \<open>Unwrap\<close> from \<open>err\<close> and compares every
  link with \<open>target\<close>.
\<close>

fun is_chain :: "error \<Rightarrow> error \<Rightarrow> bool" where
  "is_chain (Wrapped m e) target = (Wrapped m e = target \<or> is_chain e target)"
| "is_chain e target = (e = target)"

definition errors_Is :: "error option \<Rightarrow> error option \<Rightarrow> bool" where
  "errors_Is err target =
     (case err of
        None \<Rightarrow> err = target
      | Some e \<Rightarrow> (case target of None \<Rightarrow> err = target | Some t \<Rightarrow> is_chain e t))"

text \<open>
  \<open>errors.As(err, &netErr)\<close> for a target of type \<open>net.Error\<close>: the first error of the
  chain that implements \<open>net.Error\<close>, given here by the result of its \<open>Timeout()\<close>.
  \<open>context.DeadlineExceeded\<close> implements \<open>net.Error\<close> and its \<open>Timeout()\<close> is true.
\<close>

fun as_net_error :: "error \<Rightarrow> bool option" where
  "as_net_error (NetError t) = Some t"
| "as_net_error DeadlineExceeded = Some True"
| "as_net_error (Wrapped m e) = as_net_error e"
| "as_net_error e = None"

definition errors_As_net_Error :: "error option \<Rightarrow> bool option" where
  "errors_As_net_Error err = (case err of None \<Rightarrow> None | Some e \<Rightarrow> as_net_error e)"

text \<open>
  A \<open>context.Context\<close>, reduced to what a source call can observe of it: its deadline,
  whether it can be cancelled (its \<open>Done\<close> channel is not \<open>nil\<close>) and its values.
  \<open>context.WithoutCancel\<close> of the Go standard library returns a context that keeps the
  parent's values, is never cancelled, and reports no deadline (its \<open>Deadline()\<close> returns
  \<open>ok = false\<close>, its \<open>Done()\<close> returns \<open>nil\<close>).
\<close>

record Context =
  deadline :: "time option"
  cancelable :: bool
  ctx_values :: "(string \<times> string) list"

definition WithoutCancel :: "Context \<Rightarrow> Context" where
  "WithoutCancel parent = parent\<lparr>deadline := None, cancelable := False\<rparr>"

section \<open>Limits, buckets, decisions\<close>

text \<open>
  The struct \<open>limit\<close> is declared outside the files at hand; \<open>limiter.go\<close> reads its fields
  \<open>Burst\<close> and \<open>isOverride\<close>, the other two fields are those of the data model of the
  specification (count and period, the period in nanoseconds).
\<close>

record limit =
  Burst :: int
  Count :: int
  Period :: Duration
  isOverride :: bool

record Bucket =
  name :: Name
  key :: string

record BucketWithCost = Bucket +
  cost :: int

record Decision =
  Allowed :: bool
  Remaining :: int
  RetryIn :: Duration
  ResetIn :: Duration
  newTAT :: time

definition disabledLimitDecision :: Decision where
  "disabledLimitDecision =
     \<lparr>Allowed = True, Remaining = 0, RetryIn = 0, ResetIn = 0, newTAT = zeroTime\<rparr>"

section \<open>The decision kernel\<close>

text \<open>
  Modelled from the spec: \<open>maybeSpend\<close> and \<open>maybeRefund\<close> (the GCRA decision kernel) are
  called by \<open>limiter.go\<close> but defined outside the files at hand. The definitions follow
  section 4.1 of the specification step by step. The first argument stands for the clock
  the Go functions receive: it is the reading of that clock. Where section 4.1 leaves
  \<open>retry_in\<close> of an allowed spend open, the data model of section 3 is followed: zero when
  the capacity left after the spend still affords \<open>cost\<close>, else the wait until it does.
\<close>

definition emissionInterval :: "limit \<Rightarrow> Duration" where
  "emissionInterval rl = Period rl div Count rl"

definition remainingAt :: "limit \<Rightarrow> time \<Rightarrow> time \<Rightarrow> int" where
  "remainingAt rl threshold_TAT tat =
     max 0 (min (Burst rl) ((threshold_TAT - tat) div emissionInterval rl))"

definition maybeSpend :: "time \<Rightarrow> limit \<Rightarrow> time \<Rightarrow> int \<Rightarrow> Decision" where
  "maybeSpend now rl stored_TAT c =
     (let increment = c * emissionInterval rl;
          effective_TAT = max stored_TAT now;
          candidate_TAT = effective_TAT + increment;
          threshold_TAT = now + Burst rl * emissionInterval rl
      in if candidate_TAT > threshold_TAT
         then \<lparr>Allowed = False,
               Remaining = remainingAt rl threshold_TAT effective_TAT,
               RetryIn = candidate_TAT - threshold_TAT,
               ResetIn = max 0 (effective_TAT - now),
               newTAT = stored_TAT\<rparr>
         else \<lparr>Allowed = True,
               Remaining = remainingAt rl threshold_TAT candidate_TAT,
               RetryIn = (if increment \<le> threshold_TAT - candidate_TAT then 0
                          else increment - (threshold_TAT - candidate_TAT)),
               ResetIn = max 0 (candidate_TAT - now),
               newTAT = candidate_TAT\<rparr>)"

definition maybeRefund :: "time \<Rightarrow> limit \<Rightarrow> time \<Rightarrow> int \<Rightarrow> Decision" where
  "maybeRefund now rl stored_TAT c =
     (let threshold_TAT = now + Burst rl * emissionInterval rl
      in if stored_TAT \<le> now
         then \<lparr>Allowed = False,
               Remaining = remainingAt rl threshold_TAT stored_TAT,
               RetryIn = 0,
               ResetIn = max 0 (stored_TAT - now),
               newTAT = stored_TAT\<rparr>
         else (let refund = c * emissionInterval rl;
                   candidate_TAT = max now (stored_TAT - refund)
               in \<lparr>Allowed = True,
                    Remaining = remainingAt rl threshold_TAT candidate_TAT,
                    RetryIn = 0,
                    ResetIn = max 0 (candidate_TAT - now),
                    newTAT = candidate_TAT\<rparr>))"

section \<open>The source\<close>

text \<open>
  Modelled from the spec: the interface \<open>source\<close> (section 4.2) is declared outside the
  files at hand; \<open>limiter.go\<close> calls its methods \<open>Get\<close>, \<open>Set\<close>, \<open>BatchGet\<close>, \<open>BatchSet\<close>
  and \<open>Delete\<close>. The model is a key/value store of TATs that records every call it
  receives, with the context it was given, and that can fail: \<open>faults s n\<close> is the error,
  if any, returned by the call number \<open>n\<close> (counted from 0). A call that fails leaves the
  stored TATs as they were. A \<open>Get\<close> of a missing key returns \<open>ErrBucketNotFound\<close>, a
  \<open>BatchGet\<close> leaves missing keys out of its result, as \<open>RedisSource\<close> does.

  A Go map of new TATs is an association list with one entry per key (\<open>AList.update\<close>
  overwrites the entry of a key that is present), so that \<open>len(m) > 0\<close> is \<open>m \<noteq> []\<close>.
\<close>

datatype call =
    GetCall Context string
  | SetCall Context string time
  | BatchGetCall Context "string list"
  | BatchSetCall Context "(string \<times> time) list"
  | DeleteCall Context string

fun is_write :: "call \<Rightarrow> bool" where
  "is_write (SetCall c k t) = True"
| "is_write (BatchSetCall c m) = True"
| "is_write (DeleteCall c k) = True"
| "is_write (GetCall c k) = False"
| "is_write (BatchGetCall c ks) = False"

fun call_context :: "call \<Rightarrow> Context" where
  "call_context (GetCall c k) = c"
| "call_context (SetCall c k t) = c"
| "call_context (BatchGetCall c ks) = c"
| "call_context (BatchSetCall c m) = c"
| "call_context (DeleteCall c k) = c"

record source =
  store :: "string \<rightharpoonup> time"
  calls :: "call list"
  faults :: "nat \<Rightarrow> error option"

definition issue :: "call \<Rightarrow> source \<Rightarrow> source" where
  "issue c s = s\<lparr>calls := calls s @ [c]\<rparr>"

definition fault_now :: "source \<Rightarrow> error option" where
  "fault_now s = faults s (length (calls s))"

fun store_all :: "(string \<times> time) list \<Rightarrow> (string \<rightharpoonup> time) \<Rightarrow> (string \<rightharpoonup> time)" where
  "store_all [] m = m"
| "store_all ((k, t) # kts) m = store_all kts (m(k \<mapsto> t))"

definition src_Get :: "Context \<Rightarrow> string \<Rightarrow> source \<Rightarrow> (error + time) \<times> source" where
  "src_Get c k s =
     (case fault_now s of
        Some e \<Rightarrow> (Inl e, issue (GetCall c k) s)
      | None \<Rightarrow>
          (case store s k of
             None \<Rightarrow> (Inl ErrBucketNotFound, issue (GetCall c k) s)
           | Some t \<Rightarrow> (Inr t, issue (GetCall c k) s)))"

definition src_Set :: "Context \<Rightarrow> string \<Rightarrow> time \<Rightarrow> source \<Rightarrow> error option \<times> source" where
  "src_Set c k t s =
     (case fault_now s of
        Some e \<Rightarrow> (Some e, issue (SetCall c k t) s)
      | None \<Rightarrow> (None, issue (SetCall c k t) (s\<lparr>store := (store s)(k \<mapsto> t)\<rparr>)))"

definition src_BatchGet ::
  "Context \<Rightarrow> string list \<Rightarrow> source \<Rightarrow> (error + (string \<rightharpoonup> time)) \<times> source" where
  "src_BatchGet c ks s =
     (case fault_now s of
        Some e \<Rightarrow> (Inl e, issue (BatchGetCall c ks) s)
      | None \<Rightarrow> (Inr (store s |` set ks), issue (BatchGetCall c ks) s))"

definition src_BatchSet ::
  "Context \<Rightarrow> (string \<times> time) list \<Rightarrow> source \<Rightarrow> error option \<times> source" where
  "src_BatchSet c m s =
     (case fault_now s of
        Some e \<Rightarrow> (Some e, issue (BatchSetCall c m) s)
      | None \<Rightarrow> (None, issue (BatchSetCall c m) (s\<lparr>store := store_all m (store s)\<rparr>)))"

definition src_Delete :: "Context \<Rightarrow> string \<Rightarrow> source \<Rightarrow> error option \<times> source" where
  "src_Delete c k s =
     (case fault_now s of
        Some e \<Rightarrow> (Some e, issue (DeleteCall c k) s)
      | None \<Rightarrow> (None, issue (DeleteCall c k) (s\<lparr>store := (store s)(k := None)\<rparr>)))"

text \<open>The calls a source has received since an earlier state of it.\<close>

definition calls_since :: "source \<Rightarrow> source \<Rightarrow> call list" where
  "calls_since s s' = drop (length (calls s)) (calls s')"

section \<open>The limiter\<close>

text \<open>
  The \<open>Limiter\<close> holds the two registries and the clock; \<open>clk\<close> is the reading
  \<open>l.clk.Now()\<close> returns during the operation modelled (one instant for the whole call).
  The source the Go struct points to is mutable, so its state is passed to every operation
  and returned by it. The Prometheus histograms and gauges are write-only for the limiter
  and are left out.
\<close>

record Limiter =
  defaults :: "string \<rightharpoonup> limit"
  overrides :: "string \<rightharpoonup> limit"
  clk :: time
  isValid :: "Name \<Rightarrow> bool"
  EnumString :: "Name \<Rightarrow> string"

definition getLimit :: "Limiter \<Rightarrow> Name \<Rightarrow> string \<Rightarrow> error + limit" where
  "getLimit l n bucketKey =
     (if \<not> isValid l n then Inl (InvalidNameError n)
      else case (if bucketKey \<noteq> [] then overrides l bucketKey else None) of
             Some ol \<Rightarrow> Inr ol
           | None \<Rightarrow>
               (case defaults l (EnumString l n) of
                  Some dl \<Rightarrow> Inr dl
                | None \<Rightarrow> Inl errLimitDisabled))"

definition Check :: "Limiter \<Rightarrow> Context \<Rightarrow> BucketWithCost \<Rightarrow> source \<Rightarrow> (error + Decision) \<times> source" where
  "Check l ctx bucket s =
     (if cost bucket < 0 then (Inl ErrInvalidCostForCheck, s)
      else case getLimit l (name bucket) (key bucket) of
        Inl err \<Rightarrow>
          if errors_Is (Some err) (Some errLimitDisabled) then (Inr disabledLimitDecision, s)
          else (Inl err, s)
      | Inr lim \<Rightarrow>
          if cost bucket > Burst lim then (Inl ErrInvalidCostOverLimit, s)
          else (case src_Get (WithoutCancel ctx) (key bucket) s of
                  (Inl err, s') \<Rightarrow>
                    if \<not> errors_Is (Some err) (Some ErrBucketNotFound) then (Inl err, s')
                    else (Inr (maybeSpend (clk l) lim (clk l) (cost bucket)), s')
                | (Inr tat, s') \<Rightarrow> (Inr (maybeSpend (clk l) lim tat (cost bucket)), s')))"

definition initialize ::
  "Limiter \<Rightarrow> Context \<Rightarrow> limit \<Rightarrow> BucketWithCost \<Rightarrow> source \<Rightarrow> (error + Decision) \<times> source" where
  "initialize l ctx rl bucket s =
     (let d = maybeSpend (clk l) rl (clk l) (cost bucket)
      in case src_Set (WithoutCancel ctx) (key bucket) (newTAT d) s of
           (Some err, s') \<Rightarrow> (Inl err, s')
         | (None, s') \<Rightarrow> (Inr d, s'))"

definition Spend :: "Limiter \<Rightarrow> Context \<Rightarrow> BucketWithCost \<Rightarrow> source \<Rightarrow> (error + Decision) \<times> source" where
  "Spend l ctx bucket s =
     (if cost bucket \<le> 0 then (Inl ErrInvalidCost, s)
      else case getLimit l (name bucket) (key bucket) of
        Inl err \<Rightarrow>
          if errors_Is (Some err) (Some errLimitDisabled) then (Inr disabledLimitDecision, s)
          else (Inl err, s)
      | Inr lim \<Rightarrow>
          if cost bucket > Burst lim then (Inl ErrInvalidCostOverLimit, s)
          else (case src_Get (WithoutCancel ctx) (key bucket) s of
                  (Inl err, s') \<Rightarrow>
                    if errors_Is (Some err) (Some ErrBucketNotFound)
                    then initialize l (WithoutCancel ctx) lim bucket s'
                    else (Inl err, s')
                | (Inr tat, s') \<Rightarrow>
                    (let d = maybeSpend (clk l) lim tat (cost bucket)
                     in if \<not> Allowed d then (Inr d, s')
                        else (case src_Set (WithoutCancel ctx) (key bucket) (newTAT d) s' of
                                (Some err, s'') \<Rightarrow> (Inl err, s'')
                              | (None, s'') \<Rightarrow> (Inr d, s'')))))"

text \<open>
  The variables the loops of \<open>BatchSpend\<close> and \<open>BatchRefund\<close> update, and the consolidated
  decision built from them after the loop.
\<close>

record batch =
  minRemaining :: int
  maxRetryIn :: Duration
  maxResetIn :: Duration
  maxNewTAT :: time
  newTATs :: "(string \<times> time) list"
  allowed :: bool

definition consolidated :: "batch \<Rightarrow> Decision" where
  "consolidated b =
     \<lparr>Allowed = allowed b, Remaining = minRemaining b, RetryIn = maxRetryIn b,
      ResetIn = maxResetIn b, newTAT = maxNewTAT b\<rparr>"

definition record_decision :: "string \<Rightarrow> Decision \<Rightarrow> bool \<Rightarrow> batch \<Rightarrow> batch" where
  "record_decision k d allowed' b =
     \<lparr>minRemaining = min (minRemaining b) (Remaining d),
      maxRetryIn = max (maxRetryIn b) (RetryIn d),
      maxResetIn = max (maxResetIn b) (ResetIn d),
      maxNewTAT = (if After (newTAT d) (maxNewTAT b) then newTAT d else maxNewTAT b),
      newTATs = (if Allowed d then AList.update k (newTAT d) (newTATs b) else newTATs b),
      allowed = allowed'\<rparr>"

definition spend_start :: batch where
  "spend_start =
     \<lparr>minRemaining = MaxInt64, maxRetryIn = 0, maxResetIn = 0, maxNewTAT = zeroTime,
      newTATs = [], allowed = True\<rparr>"

definition refund_start :: batch where
  "refund_start =
     \<lparr>minRemaining = MaxInt64, maxRetryIn = 0, maxResetIn = 0, maxNewTAT = zeroTime,
      newTATs = [], allowed = False\<rparr>"

text \<open>The TAT an iteration of the loop of \<open>BatchSpend\<close> starts from.\<close>

definition spend_tat :: "(string \<rightharpoonup> time) \<Rightarrow> time \<Rightarrow> string \<Rightarrow> time" where
  "spend_tat tats nowTAT k =
     (case tats k of
        None \<Rightarrow> nowTAT
      | Some tat \<Rightarrow> if IsZero tat then nowTAT else tat)"

fun spend_loop ::
  "Limiter \<Rightarrow> (string \<rightharpoonup> time) \<Rightarrow> time \<Rightarrow> BucketWithCost list \<Rightarrow> batch \<Rightarrow> error + batch" where
  "spend_loop l tats nowTAT [] b = Inr b"
| "spend_loop l tats nowTAT (bucket # buckets) b =
     (case getLimit l (name bucket) (key bucket) of
        Inl err \<Rightarrow>
          if errors_Is (Some err) (Some errLimitDisabled) then spend_loop l tats nowTAT buckets b
          else Inl err
      | Inr lim \<Rightarrow>
          (let d = maybeSpend (clk l) lim (spend_tat tats nowTAT (key bucket)) (cost bucket)
           in spend_loop l tats nowTAT buckets
                (record_decision (key bucket) d (allowed b \<and> Allowed d) b)))"

definition BatchSpend ::
  "Limiter \<Rightarrow> Context \<Rightarrow> BucketWithCost list \<Rightarrow> source \<Rightarrow> (error + Decision) \<times> source" where
  "BatchSpend l ctx buckets s =
     (if length buckets = 0 then (Inl errZeroBucketsInBatch, s)
      else if list_ex (\<lambda>bucket. cost bucket \<le> 0) buckets then (Inl ErrInvalidCost, s)
      else (case src_BatchGet (WithoutCancel ctx) (map key buckets) s of
              (Inl err, s') \<Rightarrow> (Inl err, s')
            | (Inr tats, s') \<Rightarrow>
                (case spend_loop l tats (clk l) buckets spend_start of
                   Inl err \<Rightarrow> (Inl err, s')
                 | Inr b \<Rightarrow>
                     if length (newTATs b) > 0 \<and> allowed b
                     then (case src_BatchSet (WithoutCancel ctx) (newTATs b) s' of
                             (Some err, s'') \<Rightarrow> (Inl err, s'')
                           | (None, s'') \<Rightarrow> (Inr (consolidated b), s''))
                     else (Inr (consolidated b), s'))))"

text \<open>
  \<open>Refund\<close> ends with \<open>return d, l.source.Set(...)\<close>: when the write fails it returns the
  decision together with the error, so its result is a pair of two nullable values.
\<close>

definition Refund ::
  "Limiter \<Rightarrow> Context \<Rightarrow> BucketWithCost \<Rightarrow> source \<Rightarrow> (Decision option \<times> error option) \<times> source" where
  "Refund l ctx bucket s =
     (if cost bucket \<le> 0 then ((None, Some ErrInvalidCost), s)
      else case getLimit l (name bucket) (key bucket) of
        Inl err \<Rightarrow>
          if errors_Is (Some err) (Some errLimitDisabled)
          then ((Some disabledLimitDecision, None), s)
          else ((None, Some err), s)
      | Inr lim \<Rightarrow>
          (case src_Get (WithoutCancel ctx) (key bucket) s of
             (Inl err, s') \<Rightarrow> ((None, Some err), s')
           | (Inr tat, s') \<Rightarrow>
               (let d = maybeRefund (clk l) lim tat (cost bucket)
                in if \<not> Allowed d then ((Some d, None), s')
                   else (case src_Set (WithoutCancel ctx) (key bucket) (newTAT d) s' of
                           (err, s'') \<Rightarrow> ((Some d, err), s'')))))"

fun refund_loop ::
  "Limiter \<Rightarrow> (string \<rightharpoonup> time) \<Rightarrow> BucketWithCost list \<Rightarrow> batch \<Rightarrow> error + batch" where
  "refund_loop l tats [] b = Inr b"
| "refund_loop l tats (bucket # buckets) b =
     (case getLimit l (name bucket) (key bucket) of
        Inl err \<Rightarrow>
          if errors_Is (Some err) (Some errLimitDisabled) then refund_loop l tats buckets b
          else Inl err
      | Inr lim \<Rightarrow>
          (case tats (key bucket) of
             None \<Rightarrow> refund_loop l tats buckets b
           | Some tat \<Rightarrow>
               if IsZero tat then refund_loop l tats buckets b
               else (let d = maybeRefund (clk l) lim tat (cost bucket)
                     in refund_loop l tats buckets
                          (record_decision (key bucket) d (allowed b \<or> Allowed d) b))))"

definition BatchRefund ::
  "Limiter \<Rightarrow> Context \<Rightarrow> BucketWithCost list \<Rightarrow> source \<Rightarrow> (error + Decision) \<times> source" where
  "BatchRefund l ctx buckets s =
     (if length buckets = 0 then (Inl errZeroBucketsInBatch, s)
      else if list_ex (\<lambda>bucket. cost bucket \<le> 0) buckets then (Inl ErrInvalidCost, s)
      else (case src_BatchGet (WithoutCancel ctx) (map key buckets) s of
              (Inl err, s') \<Rightarrow> (Inl err, s')
            | (Inr tats, s') \<Rightarrow>
                (case refund_loop l tats buckets refund_start of
                   Inl err \<Rightarrow> (Inl err, s')
                 | Inr b \<Rightarrow>
                     if length (newTATs b) > 0
                     then (case src_BatchSet (WithoutCancel ctx) (newTATs b) s' of
                             (Some err, s'') \<Rightarrow> (Inl err, s'')
                           | (None, s'') \<Rightarrow> (Inr (consolidated b), s''))
                     else (Inr (consolidated b), s'))))"

definition Reset :: "Limiter \<Rightarrow> Context \<Rightarrow> Bucket \<Rightarrow> source \<Rightarrow> error option \<times> source" where
  "Reset l ctx bucket s = src_Delete (WithoutCancel ctx) (key bucket) s"

section \<open>Error classification of the Redis source\<close>

text \<open>
  \<open>resultForError\<close> of \<open>source_redis.go\<close>, branch by branch. Its first test is
  \<open>errors.Is(redis.Nil, err)\<close>, with \<open>redis.Nil\<close> in the place of the error and \<open>err\<close> in
  the place of the target. Its last test is \<open>errors.Is(err, redisErr)\<close> where \<open>redisErr\<close>
  is a declared but never assigned variable of the interface type \<open>redis.Error\<close>, hence
  \<open>nil\<close>.
\<close>

definition resultForError :: "error option \<Rightarrow> string" where
  "resultForError err =
     (if errors_Is (Some RedisNil) err then ''notFound''
      else if errors_Is err (Some DeadlineExceeded) then ''deadlineExceeded''
      else if errors_Is err (Some Canceled) then ''canceled''
      else if errors_As_net_Error err = Some True then ''timeout''
      else if errors_Is err None then ''redisError''
      else ''failed'')"

section \<open>Notions the statements are written in\<close>

text \<open>
  The buckets a batch evaluates, each with its decision, in the order of the batch. For
  \<open>BatchSpend\<close> these are the buckets whose limit is enabled; the decision of a bucket is
  the kernel's, from the TAT the batch-get returned for its key (or from the time of the
  call when there is none) and the bucket's own cost. For \<open>BatchRefund\<close> these are the
  buckets whose limit is enabled and whose key has a non-zero TAT in the result of the
  batch-get.
\<close>

fun spend_decisions ::
  "Limiter \<Rightarrow> (string \<rightharpoonup> time) \<Rightarrow> BucketWithCost list \<Rightarrow> (string \<times> Decision) list" where
  "spend_decisions l tats [] = []"
| "spend_decisions l tats (bucket # buckets) =
     (case getLimit l (name bucket) (key bucket) of
        Inl err \<Rightarrow> spend_decisions l tats buckets
      | Inr lim \<Rightarrow>
          (key bucket, maybeSpend (clk l) lim (spend_tat tats (clk l) (key bucket)) (cost bucket))
            # spend_decisions l tats buckets)"

fun refund_decisions ::
  "Limiter \<Rightarrow> (string \<rightharpoonup> time) \<Rightarrow> BucketWithCost list \<Rightarrow> (string \<times> Decision) list" where
  "refund_decisions l tats [] = []"
| "refund_decisions l tats (bucket # buckets) =
     (case getLimit l (name bucket) (key bucket) of
        Inl err \<Rightarrow> refund_decisions l tats buckets
      | Inr lim \<Rightarrow>
          (case tats (key bucket) of
             None \<Rightarrow> refund_decisions l tats buckets
           | Some tat \<Rightarrow>
               if IsZero tat then refund_decisions l tats buckets
               else (key bucket, maybeRefund (clk l) lim tat (cost bucket))
                      # refund_decisions l tats buckets))"

text \<open>The new TAT of the last allowed decision for a key, if there is one.\<close>

definition last_allowed :: "string \<Rightarrow> (string \<times> Decision) list \<Rightarrow> time option" where
  "last_allowed k ds =
     (case filter (\<lambda>(k', d). k' = k \<and> Allowed d) ds of
        [] \<Rightarrow> None
      | x # xs \<Rightarrow> Some (newTAT (snd (last (x # xs)))))"

text \<open>
  The loop variables after a list of decisions has been recorded, in order; \<open>f\<close> combines
  the flag \<open>allowed\<close> with the next decision (\<open>&&\<close> in \<open>BatchSpend\<close>, \<open>||\<close> in
  \<open>BatchRefund\<close>).
\<close>

fun record_all ::
  "(bool \<Rightarrow> bool \<Rightarrow> bool) \<Rightarrow> (string \<times> Decision) list \<Rightarrow> batch \<Rightarrow> batch" where
  "record_all f [] b = b"
| "record_all f ((k, d) # ds) b =
     record_all f ds (record_decision k d (f (allowed b) (Allowed d)) b)"

text \<open>At least one decision of the list is allowed; every decision of the list is.\<close>

definition some_allowed :: "(string \<times> Decision) list \<Rightarrow> bool" where
  "some_allowed ds = list_ex (\<lambda>(k, d). Allowed d) ds"

definition all_allowed :: "(string \<times> Decision) list \<Rightarrow> bool" where
  "all_allowed ds = list_all (\<lambda>(k, d). Allowed d) ds"

text \<open>Every call of a list was given the context \<open>context.WithoutCancel(ctx)\<close>.\<close>

definition detached :: "Context \<Rightarrow> call list \<Rightarrow> bool" where
  "detached ctx cs = list_all (\<lambda>c. call_context c = WithoutCancel ctx) cs"

section \<open>A configuration to run the model on\<close>

text \<open>
  The setting of the scenarios of the specification: a default limit for the name 1 with
  a burst of 10 and an emission interval of one second, an override for one key, the
  clock at 0, and a source that holds a TAT of 9 seconds for the key \<open>1:A\<close> and never
  fails. The name 2 is valid but has no limit, the name 9 is not valid.
\<close>

definition demo_limit :: limit where
  "demo_limit = \<lparr>Burst = 10, Count = 1, Period = 1000000000, isOverride = False\<rparr>"

definition demo_override :: limit where
  "demo_override = \<lparr>Burst = 20, Count = 2, Period = 1000000000, isOverride = True\<rparr>"

definition demo_limiter :: Limiter where
  "demo_limiter =
     \<lparr>defaults = [''1'' \<mapsto> demo_limit],
      overrides = [''1:vip'' \<mapsto> demo_override],
      clk = 0,
      isValid = (\<lambda>n. 0 < n \<and> n < 7),
      EnumString = (\<lambda>n. if n = 1 then ''1'' else if n = 2 then ''2'' else ''0'')\<rparr>"

definition demo_source :: source where
  "demo_source = \<lparr>store = [''1:A'' \<mapsto> 9000000000], calls = [], faults = (\<lambda>n. None)\<rparr>"

definition demo_ctx :: Context where
  "demo_ctx = \<lparr>deadline = Some 5000000000, cancelable = True, ctx_values = []\<rparr>"

definition bucket_of :: "Name \<Rightarrow> string \<Rightarrow> int \<Rightarrow> BucketWithCost" where
  "bucket_of n k c = \<lparr>name = n, key = k, cost = c\<rparr>"

section \<open>Evaluation rules\<close>

lemmas demo_defs = demo_limit_def demo_override_def demo_limiter_def demo_source_def demo_ctx_def bucket_of_def

lemmas run_defs = getLimit_def src_Get_def src_Set_def src_BatchGet_def src_BatchSet_def
  src_Delete_def fault_now_def issue_def errors_Is_def WithoutCancel_def calls_since_def
  maybeSpend_def maybeRefund_def remainingAt_def emissionInterval_def Let_def

lemmas batch_defs = spend_tat_def record_decision_def spend_start_def refund_start_def
  consolidated_def IsZero_def After_def zeroTime_def MaxInt64_def restrict_map_def
  some_allowed_def all_allowed_def

section \<open>Effects of the source operations\<close>

lemma src_Get_effect:
  "src_Get c k s = (r, s') \<Longrightarrow>
     calls s' = calls s @ [GetCall c k] \<and> store s' = store s \<and> faults s' = faults s"
  by (auto simp: src_Get_def issue_def split: option.splits)

lemma src_BatchGet_effect:
  "src_BatchGet c ks s = (r, s') \<Longrightarrow>
     calls s' = calls s @ [BatchGetCall c ks] \<and> store s' = store s \<and> faults s' = faults s"
  by (auto simp: src_BatchGet_def issue_def split: option.splits)

lemma src_Set_effect:
  "src_Set c k t s = (r, s') \<Longrightarrow>
     calls s' = calls s @ [SetCall c k t] \<and> faults s' = faults s \<and> r = fault_now s \<and>
     store s' = (if r = None then (store s)(k \<mapsto> t) else store s)"
  by (auto simp: src_Set_def issue_def split: option.splits)

lemma src_BatchSet_effect:
  "src_BatchSet c m s = (r, s') \<Longrightarrow>
     calls s' = calls s @ [BatchSetCall c m] \<and> faults s' = faults s \<and> r = fault_now s \<and>
     store s' = (if r = None then store_all m (store s) else store s)"
  by (auto simp: src_BatchSet_def issue_def split: option.splits)

lemma src_Delete_effect:
  "src_Delete c k s = (r, s') \<Longrightarrow>
     calls s' = calls s @ [DeleteCall c k] \<and> faults s' = faults s \<and> r = fault_now s \<and>
     store s' = (if r = None then (store s)(k := None) else store s)"
  by (auto simp: src_Delete_def issue_def split: option.splits)

lemma calls_since_append: "calls s' = calls s @ xs \<Longrightarrow> calls_since s s' = xs"
  by (simp add: calls_since_def)

lemma calls_since_self: "calls_since s s = []"
  by (simp add: calls_since_def)

section \<open>Limit resolution\<close>

text \<open>
  Claim C7. For a valid name, \<open>getLimit\<close> returns the override when the key is not empty
  and is present in the overrides, otherwise the default registered for the name,
  otherwise the sentinel \<open>errLimitDisabled\<close>. For a name that is not valid it returns an
  error of its own, which is not the disabled sentinel, whatever the two registries hold.
\<close>
theorem getLimit_resolution:
  "(\<not> isValid l n \<longrightarrow> getLimit l n k = Inl (InvalidNameError n)) \<and>
   (isValid l n \<and> k \<noteq> [] \<and> overrides l k = Some ol \<longrightarrow> getLimit l n k = Inr ol) \<and>
   (isValid l n \<and> (k = [] \<or> overrides l k = None) \<and> defaults l (EnumString l n) = Some dl \<longrightarrow>
      getLimit l n k = Inr dl) \<and>
   (isValid l n \<and> (k = [] \<or> overrides l k = None) \<and> defaults l (EnumString l n) = None \<longrightarrow>
      getLimit l n k = Inl errLimitDisabled) \<and>
   \<not> errors_Is (Some (InvalidNameError n)) (Some errLimitDisabled)"
  by (auto simp: getLimit_def errors_Is_def)

theorem getLimit_resolution_witness:
  "getLimit demo_limiter 9 ''1:vip'' = Inl (InvalidNameError 9) \<and>
   getLimit demo_limiter 1 ''1:vip'' = Inr demo_override \<and>
   getLimit demo_limiter 1 ''1:A'' = Inr demo_limit \<and>
   getLimit demo_limiter 2 ''2:A'' = Inl errLimitDisabled"
proof -
  have v: "\<not> isValid demo_limiter 9" "isValid demo_limiter 1" "isValid demo_limiter 2"
    by (simp_all add: demo_limiter_def)
  have o: "overrides demo_limiter ''1:vip'' = Some demo_override"
    "overrides demo_limiter ''1:A'' = None" "overrides demo_limiter ''2:A'' = None"
    by (simp_all add: demo_limiter_def)
  have d: "defaults demo_limiter (EnumString demo_limiter 1) = Some demo_limit"
    "defaults demo_limiter (EnumString demo_limiter 2) = None"
    by (simp_all add: demo_limiter_def)
  show ?thesis
    using getLimit_resolution [of demo_limiter 9 "''1:vip''"]
      getLimit_resolution [of demo_limiter 1 "''1:vip''" demo_override]
      getLimit_resolution [of demo_limiter 1 "''1:A''" _ demo_limit]
      getLimit_resolution [of demo_limiter 2 "''2:A''"]
    by (simp add: v o d)
qed

section \<open>Labels of the Redis errors\<close>

text \<open>
  Claim C4. What \<open>resultForError\<close> computes where the classification is expected to
  answer \<open>redisError\<close> and \<open>notFound\<close>: an error reply of the Redis server is labelled
  \<open>failed\<close>, an error that wraps \<open>redis.Nil\<close> is labelled \<open>failed\<close>, and no error
  other than \<open>nil\<close> is ever labelled \<open>redisError\<close>.
\<close>
theorem resultForError_server_error:
  "resultForError (Some (RedisServerError msg)) = ''failed'' \<and>
   resultForError (Some (Wrapped m RedisNil)) = ''failed'' \<and>
   resultForError (Some e) \<noteq> ''redisError''"
  by (simp add: resultForError_def errors_Is_def errors_As_net_Error_def)

text \<open>The labels the classification does give as expected.\<close>

lemma resultForError_labels:
  "resultForError (Some RedisNil) = ''notFound''"
  "resultForError (Some (Wrapped m DeadlineExceeded)) = ''deadlineExceeded''"
  "resultForError (Some (Wrapped m Canceled)) = ''canceled''"
  "resultForError (Some (NetError True)) = ''timeout''"
  "resultForError (Some (OtherError msg)) = ''failed''"
  by (simp_all add: resultForError_def errors_Is_def errors_As_net_Error_def)

section \<open>Refund of a bucket the source does not have\<close>

text \<open>
  Claim C1, as the code has it. A \<open>Refund\<close> with a positive cost on an enabled limit,
  whose \<open>Get\<close> is answered with a not-found error, returns that error and no decision; the
  only call the source receives is the \<open>Get\<close>, and the stored TATs are unchanged.
\<close>
theorem Refund_not_found:
  assumes "0 < cost bucket"
    and "getLimit l (name bucket) (key bucket) = Inr lim"
    and "fst (src_Get (WithoutCancel ctx) (key bucket) s) = Inl err"
    and "errors_Is (Some err) (Some ErrBucketNotFound)"
  shows "fst (Refund l ctx bucket s) = (None, Some err) \<and>
         calls_since s (snd (Refund l ctx bucket s)) = [GetCall (WithoutCancel ctx) (key bucket)] \<and>
         store (snd (Refund l ctx bucket s)) = store s"
proof -
  obtain s' where g: "src_Get (WithoutCancel ctx) (key bucket) s = (Inl err, s')"
    using assms(3) by (cases "src_Get (WithoutCancel ctx) (key bucket) s") simp
  have r: "Refund l ctx bucket s = ((None, Some err), s')"
    using assms(1,2) g by (simp add: Refund_def)
  from src_Get_effect [OF g] show ?thesis
    by (simp add: r calls_since_append)
qed

theorem Refund_not_found_counterexample:
  "0 < cost (bucket_of 1 ''1:B'' 3) \<and>
   getLimit demo_limiter 1 ''1:B'' = Inr demo_limit \<and>
   fst (src_Get (WithoutCancel demo_ctx) ''1:B'' demo_source) = Inl ErrBucketNotFound \<and>
   fst (Refund demo_limiter demo_ctx (bucket_of 1 ''1:B'' 3) demo_source) = (None, Some ErrBucketNotFound) \<and>
   \<not> (\<exists>d. fst (Refund demo_limiter demo_ctx (bucket_of 1 ''1:B'' 3) demo_source) = (Some d, None))"
  by (simp add: demo_defs Refund_def run_defs)

theorem Refund_not_found_witness:
  "fst (Refund demo_limiter demo_ctx (bucket_of 1 ''1:B'' 3) demo_source) = (None, Some ErrBucketNotFound) \<and>
   calls_since demo_source (snd (Refund demo_limiter demo_ctx (bucket_of 1 ''1:B'' 3) demo_source))
     = [GetCall (WithoutCancel demo_ctx) ''1:B''] \<and>
   store (snd (Refund demo_limiter demo_ctx (bucket_of 1 ''1:B'' 3) demo_source)) = store demo_source"
proof -
  have a: "0 < cost (bucket_of 1 ''1:B'' 3)" by (simp add: bucket_of_def)
  have b: "getLimit demo_limiter (name (bucket_of 1 ''1:B'' 3)) (key (bucket_of 1 ''1:B'' 3)) = Inr demo_limit"
    by (simp add: demo_defs getLimit_def)
  have c: "fst (src_Get (WithoutCancel demo_ctx) (key (bucket_of 1 ''1:B'' 3)) demo_source) = Inl ErrBucketNotFound"
    by (simp add: demo_defs run_defs)
  have d: "errors_Is (Some ErrBucketNotFound) (Some ErrBucketNotFound)"
    by (simp add: errors_Is_def)
  from Refund_not_found [OF a b c d] show ?thesis by (simp add: bucket_of_def)
qed

section \<open>Check reads and never writes\<close>

lemma Check_effect:
  "Check l ctx bucket s = (r, s') \<Longrightarrow>
     store s' = store s \<and> faults s' = faults s \<and>
     (calls s' = calls s \<or> calls s' = calls s @ [GetCall (WithoutCancel ctx) (key bucket)])"
  by (auto simp: Check_def split: if_splits sum.splits prod.splits dest: src_Get_effect)

text \<open>
  Claim C6. \<open>Check\<close> leaves the stored TATs as they are and issues no \<open>Set\<close>, \<open>BatchSet\<close>
  or \<open>Delete\<close>; a second \<open>Check\<close> of the same bucket with the same clock reading, which
  the source answers as it answered the first, returns the same result.
\<close>
theorem Check_pure:
  "store (snd (Check l ctx bucket s)) = store s \<and>
   filter is_write (calls_since s (snd (Check l ctx bucket s))) = [] \<and>
   (fault_now (snd (Check l ctx bucket s)) = fault_now s \<longrightarrow>
      fst (Check l ctx bucket (snd (Check l ctx bucket s))) = fst (Check l ctx bucket s))"
proof -
  obtain r s' where c: "Check l ctx bucket s = (r, s')"
    by (cases "Check l ctx bucket s")
  note e = Check_effect [OF c]
  have w: "filter is_write (calls_since s s') = []"
    using e by (auto simp: calls_since_def)
  have "fst (Check l ctx bucket s') = r" if f: "fault_now s' = fault_now s"
  proof -
    have g: "fst (src_Get c' k s') = fst (src_Get c' k s)" for c' k
      using e f by (simp add: src_Get_def split: option.splits)
    have "fst (Check l ctx bucket s') = fst (Check l ctx bucket s)"
      using g [of "WithoutCancel ctx" "key bucket"]
      by (auto simp: Check_def split: sum.splits prod.splits)
    then show ?thesis by (simp add: c)
  qed
  then show ?thesis using e w by (simp add: c)
qed

theorem Check_pure_witness:
  "store (snd (Check demo_limiter demo_ctx (bucket_of 1 ''1:A'' 5) demo_source)) = store demo_source \<and>
   filter is_write (calls_since demo_source
     (snd (Check demo_limiter demo_ctx (bucket_of 1 ''1:A'' 5) demo_source))) = [] \<and>
   fst (Check demo_limiter demo_ctx (bucket_of 1 ''1:A'' 5)
     (snd (Check demo_limiter demo_ctx (bucket_of 1 ''1:A'' 5) demo_source)))
     = fst (Check demo_limiter demo_ctx (bucket_of 1 ''1:A'' 5) demo_source) \<and>
   fst (Check demo_limiter demo_ctx (bucket_of 1 ''1:A'' 5) demo_source)
     = Inr \<lparr>Allowed = False, Remaining = 1, RetryIn = 4000000000, ResetIn = 9000000000,
            newTAT = 9000000000\<rparr>"
proof -
  have f: "fault_now (snd (Check demo_limiter demo_ctx (bucket_of 1 ''1:A'' 5) demo_source))
             = fault_now demo_source"
    by (simp add: fault_now_def Check_def demo_defs run_defs)
  have v: "fst (Check demo_limiter demo_ctx (bucket_of 1 ''1:A'' 5) demo_source)
     = Inr \<lparr>Allowed = False, Remaining = 1, RetryIn = 4000000000, ResetIn = 9000000000,
            newTAT = 9000000000\<rparr>"
    by (simp add: Check_def demo_defs run_defs)
  show ?thesis
    using Check_pure [of demo_limiter demo_ctx "bucket_of 1 ''1:A'' 5" demo_source] f v
    by simp
qed

section \<open>The context given to the source\<close>

lemma WithoutCancel_idem: "WithoutCancel (WithoutCancel ctx) = WithoutCancel ctx"
  by (simp add: WithoutCancel_def)

lemma initialize_effect:
  "initialize l ctx rl bucket s = (r, s') \<Longrightarrow>
     calls s' = calls s @ [SetCall (WithoutCancel ctx) (key bucket)
                             (newTAT (maybeSpend (clk l) rl (clk l) (cost bucket)))] \<and>
     faults s' = faults s \<and>
     r = (case fault_now s of Some e \<Rightarrow> Inl e | None \<Rightarrow> Inr (maybeSpend (clk l) rl (clk l) (cost bucket))) \<and>
     store s' = (if fault_now s = None
                 then (store s)(key bucket \<mapsto> newTAT (maybeSpend (clk l) rl (clk l) (cost bucket)))
                 else store s)"
  by (auto simp: initialize_def Let_def split: prod.splits option.splits dest!: src_Set_effect)

lemma initialize_calls:
  "calls (snd (initialize l ctx rl bucket s)) =
     calls s @ [SetCall (WithoutCancel ctx) (key bucket)
                  (newTAT (maybeSpend (clk l) rl (clk l) (cost bucket)))]"
  by (cases "initialize l ctx rl bucket s") (auto dest: initialize_effect)

lemma detached_append: "detached ctx (xs @ ys) = (detached ctx xs \<and> detached ctx ys)"
  by (simp add: detached_def)

lemma Check_detached: "detached ctx (calls_since s (snd (Check l ctx bucket s)))"
proof -
  obtain r s' where c: "Check l ctx bucket s = (r, s')"
    by (cases "Check l ctx bucket s")
  from Check_effect [OF c] show ?thesis
    by (auto simp: c calls_since_def detached_def)
qed

lemma Spend_detached: "detached ctx (calls_since s (snd (Spend l ctx bucket s)))"
  by (auto simp: Spend_def detached_def calls_since_def Let_def WithoutCancel_idem initialize_calls
      split: sum.splits prod.splits option.splits
      dest!: src_Get_effect src_Set_effect)

lemma Refund_detached: "detached ctx (calls_since s (snd (Refund l ctx bucket s)))"
  by (auto simp: Refund_def detached_def calls_since_def Let_def
      split: sum.splits prod.splits option.splits
      dest!: src_Get_effect src_Set_effect)

lemma BatchSpend_detached: "detached ctx (calls_since s (snd (BatchSpend l ctx buckets s)))"
  by (auto simp: BatchSpend_def detached_def calls_since_def
      split: sum.splits prod.splits option.splits
      dest!: src_BatchGet_effect src_BatchSet_effect)

lemma BatchRefund_detached: "detached ctx (calls_since s (snd (BatchRefund l ctx buckets s)))"
  by (auto simp: BatchRefund_def detached_def calls_since_def
      split: sum.splits prod.splits option.splits
      dest!: src_BatchGet_effect src_BatchSet_effect)

lemma Reset_detached: "detached ctx (calls_since s (snd (Reset l ctx bucket s)))"
proof -
  obtain r s' where c: "src_Delete (WithoutCancel ctx) (key bucket) s = (r, s')"
    by (cases "src_Delete (WithoutCancel ctx) (key bucket) s")
  from src_Delete_effect [OF c] show ?thesis
    by (simp add: Reset_def c calls_since_def detached_def)
qed

text \<open>
  Claim C8, as the code has it. Every call that \<open>Check\<close>, \<open>Spend\<close>, \<open>BatchSpend\<close>,
  \<open>Refund\<close>, \<open>BatchRefund\<close> and \<open>Reset\<close> issue to the source is given the context
  \<open>context.WithoutCancel(ctx)\<close>: it cannot be cancelled, it keeps the values of the
  caller's context, and it has no deadline.
\<close>
theorem source_calls_detached:
  "\<forall>c \<in> set (calls_since s (snd (Check l ctx bucket s)) @
             calls_since s (snd (Spend l ctx bucket s)) @
             calls_since s (snd (BatchSpend l ctx buckets s)) @
             calls_since s (snd (Refund l ctx bucket s)) @
             calls_since s (snd (BatchRefund l ctx buckets s)) @
             calls_since s (snd (Reset l ctx (Bucket.truncate bucket) s))).
     call_context c = WithoutCancel ctx \<and> \<not> cancelable (call_context c) \<and>
     deadline (call_context c) = None \<and> ctx_values (call_context c) = ctx_values ctx"
proof -
  let ?cs = "calls_since s (snd (Check l ctx bucket s)) @
             calls_since s (snd (Spend l ctx bucket s)) @
             calls_since s (snd (BatchSpend l ctx buckets s)) @
             calls_since s (snd (Refund l ctx bucket s)) @
             calls_since s (snd (BatchRefund l ctx buckets s)) @
             calls_since s (snd (Reset l ctx (Bucket.truncate bucket) s))"
  have "detached ctx ?cs"
    unfolding detached_append
    by (intro conjI Check_detached Spend_detached BatchSpend_detached Refund_detached
        BatchRefund_detached Reset_detached)
  then have all: "\<forall>c \<in> set ?cs. call_context c = WithoutCancel ctx"
    by (simp only: detached_def list_all_iff)
  show ?thesis
  proof
    fix c
    assume "c \<in> set ?cs"
    with all have "call_context c = WithoutCancel ctx" by (rule bspec)
    then show "call_context c = WithoutCancel ctx \<and> \<not> cancelable (call_context c) \<and>
      deadline (call_context c) = None \<and> ctx_values (call_context c) = ctx_values ctx"
      by (simp add: WithoutCancel_def)
  qed
qed

theorem deadline_preserved_counterexample:
  "calls_since demo_source (snd (Reset demo_limiter demo_ctx \<lparr>name = 1, key = ''1:A''\<rparr> demo_source))
     = [DeleteCall \<lparr>deadline = None, cancelable = False, ctx_values = []\<rparr> ''1:A''] \<and>
   deadline demo_ctx = Some 5000000000 \<and>
   map (deadline \<circ> call_context)
     (calls_since demo_source (snd (Spend demo_limiter demo_ctx (bucket_of 1 ''1:B'' 3) demo_source)))
     = [None, None]"
  by (simp add: Reset_def Spend_def initialize_def demo_defs run_defs)

theorem source_calls_detached_witness:
  "calls_since demo_source (snd (Spend demo_limiter demo_ctx (bucket_of 1 ''1:B'' 3) demo_source))
     = [GetCall (WithoutCancel demo_ctx) ''1:B'', SetCall (WithoutCancel demo_ctx) ''1:B'' 3000000000] \<and>
   \<not> cancelable (WithoutCancel demo_ctx) \<and> deadline (WithoutCancel demo_ctx) = None"
proof -
  have c: "calls_since demo_source (snd (Spend demo_limiter demo_ctx (bucket_of 1 ''1:B'' 3) demo_source))
     = [GetCall (WithoutCancel demo_ctx) ''1:B'', SetCall (WithoutCancel demo_ctx) ''1:B'' 3000000000]"
    by (simp add: Spend_def initialize_def demo_defs run_defs)
  show ?thesis
    using source_calls_detached [of demo_source demo_limiter demo_ctx "bucket_of 1 ''1:B'' 3" "[]"]
    by (simp add: c)
qed

section \<open>The first spend of a bucket\<close>

lemma maybeSpend_fresh_allowed:
  assumes "c \<le> Burst rl" "0 < Count rl" "0 \<le> Period rl"
  shows "Allowed (maybeSpend now rl now c) \<and>
         newTAT (maybeSpend now rl now c) = now + c * emissionInterval rl"
proof -
  have "0 \<le> emissionInterval rl"
    using assms(2,3) by (simp add: emissionInterval_def pos_imp_zdiv_nonneg_iff)
  then have "c * emissionInterval rl \<le> Burst rl * emissionInterval rl"
    using assms(1) by (simp add: mult_right_mono)
  then show ?thesis
    by (simp add: maybeSpend_def Let_def)
qed

text \<open>
  Claim C5. A \<open>Spend\<close> with \<open>0 < cost \<le> burst\<close> on an enabled limit (with a positive count
  and period), whose \<open>Get\<close> is answered with a not-found error, evaluates the kernel with
  the clock reading as the stored TAT; that decision is allowed, its new TAT is
  \<open>now + cost * emission_interval\<close>, and a \<open>Set\<close> of that TAT is issued whatever the
  decision is. \<open>Spend\<close> returns the decision unless the \<open>Set\<close> fails, and then returns the
  error of the \<open>Set\<close>.
\<close>
theorem Spend_initializes:
  assumes "0 < cost bucket" and "cost bucket \<le> Burst lim"
    and "0 < Count lim" and "0 < Period lim"
    and "getLimit l (name bucket) (key bucket) = Inr lim"
    and "src_Get (WithoutCancel ctx) (key bucket) s = (Inl err, s1)"
    and "errors_Is (Some err) (Some ErrBucketNotFound)"
  shows "Allowed (maybeSpend (clk l) lim (clk l) (cost bucket)) \<and>
         newTAT (maybeSpend (clk l) lim (clk l) (cost bucket))
           = clk l + cost bucket * emissionInterval lim \<and>
         calls_since s (snd (Spend l ctx bucket s))
           = [GetCall (WithoutCancel ctx) (key bucket),
              SetCall (WithoutCancel ctx) (key bucket)
                (newTAT (maybeSpend (clk l) lim (clk l) (cost bucket)))] \<and>
         fst (Spend l ctx bucket s)
           = (case fault_now s1 of
                None \<Rightarrow> Inr (maybeSpend (clk l) lim (clk l) (cost bucket))
              | Some e \<Rightarrow> Inl e) \<and>
         store (snd (Spend l ctx bucket s))
           = (if fault_now s1 = None
              then (store s)(key bucket \<mapsto> newTAT (maybeSpend (clk l) lim (clk l) (cost bucket)))
              else store s)"
proof -
  let ?d = "maybeSpend (clk l) lim (clk l) (cost bucket)"
  have k: "Allowed ?d \<and> newTAT ?d = clk l + cost bucket * emissionInterval lim"
    using assms(2,3,4) by (intro maybeSpend_fresh_allowed) simp_all
  obtain r s2 where i: "initialize l (WithoutCancel ctx) lim bucket s1 = (r, s2)"
    by (cases "initialize l (WithoutCancel ctx) lim bucket s1")
  have sp: "Spend l ctx bucket s = (r, s2)"
    using assms(1,2,5,6,7) i by (simp add: Spend_def)
  note g = src_Get_effect [OF assms(6)]
  note e = initialize_effect [OF i]
  have c: "calls_since s s2 = [GetCall (WithoutCancel ctx) (key bucket),
              SetCall (WithoutCancel ctx) (key bucket) (newTAT ?d)]"
    using g e by (simp add: calls_since_def WithoutCancel_idem)
  have r: "r = (case fault_now s1 of None \<Rightarrow> Inr ?d | Some e \<Rightarrow> Inl e)"
    using e by (simp split: option.splits)
  have st: "store s2 = (if fault_now s1 = None then (store s)(key bucket \<mapsto> newTAT ?d) else store s)"
    using g e by simp
  show ?thesis
    using k c r st by (simp add: sp)
qed

theorem Spend_initializes_witness:
  "fst (Spend demo_limiter demo_ctx (bucket_of 1 ''1:B'' 3) demo_source)
     = Inr \<lparr>Allowed = True, Remaining = 7, RetryIn = 0, ResetIn = 3000000000,
            newTAT = 3000000000\<rparr> \<and>
   calls_since demo_source (snd (Spend demo_limiter demo_ctx (bucket_of 1 ''1:B'' 3) demo_source))
     = [GetCall (WithoutCancel demo_ctx) ''1:B'',
        SetCall (WithoutCancel demo_ctx) ''1:B'' 3000000000] \<and>
   store (snd (Spend demo_limiter demo_ctx (bucket_of 1 ''1:B'' 3) demo_source))
     = (store demo_source)(''1:B'' \<mapsto> 3000000000)"
proof -
  let ?b = "bucket_of 1 ''1:B'' 3"
  let ?s1 = "issue (GetCall (WithoutCancel demo_ctx) ''1:B'') demo_source"
  have a: "0 < cost ?b" "cost ?b \<le> Burst demo_limit" "0 < Count demo_limit" "0 < Period demo_limit"
    by (simp_all add: bucket_of_def demo_limit_def)
  have b: "getLimit demo_limiter (name ?b) (key ?b) = Inr demo_limit"
    by (simp add: demo_defs getLimit_def)
  have c: "src_Get (WithoutCancel demo_ctx) (key ?b) demo_source = (Inl ErrBucketNotFound, ?s1)"
    by (simp add: bucket_of_def demo_source_def src_Get_def fault_now_def)
  have d: "errors_Is (Some ErrBucketNotFound) (Some ErrBucketNotFound)"
    by (simp add: errors_Is_def)
  have f: "fault_now ?s1 = None"
    by (simp add: fault_now_def issue_def demo_source_def)
  have v: "maybeSpend (clk demo_limiter) demo_limit (clk demo_limiter) (cost ?b)
     = \<lparr>Allowed = True, Remaining = 7, RetryIn = 0, ResetIn = 3000000000, newTAT = 3000000000\<rparr>"
    by (simp add: demo_defs maybeSpend_def remainingAt_def emissionInterval_def Let_def)
  from Spend_initializes [OF a b c d] show ?thesis
    by (simp add: f v) (simp add: bucket_of_def)
qed

section \<open>A batch of disabled limits\<close>

lemma spend_loop_all_disabled:
  "\<forall>bucket \<in> set buckets. getLimit l (name bucket) (key bucket) = Inl errLimitDisabled \<Longrightarrow>
   spend_loop l tats nowTAT buckets b = Inr b"
  by (induction buckets) (simp_all add: errors_Is_def)

text \<open>
  Claim C9. When every bucket of a non-empty batch with positive costs resolves to a
  disabled limit, \<open>BatchSpend\<close> issues the batch-get and nothing else, and, unless the
  batch-get fails, returns the decision with \<open>Allowed = true\<close>,
  \<open>Remaining = math.MaxInt64\<close>, zero durations and the zero time, which is not
  \<open>disabledLimitDecision\<close>.
\<close>
theorem BatchSpend_all_disabled:
  assumes "buckets \<noteq> []"
    and "\<forall>bucket \<in> set buckets. 0 < cost bucket"
    and "\<forall>bucket \<in> set buckets. getLimit l (name bucket) (key bucket) = Inl errLimitDisabled"
  shows "fst (BatchSpend l ctx buckets s)
           = (case fault_now s of
                None \<Rightarrow> Inr \<lparr>Allowed = True, Remaining = 9223372036854775807, RetryIn = 0,
                             ResetIn = 0, newTAT = zeroTime\<rparr>
              | Some e \<Rightarrow> Inl e) \<and>
         calls_since s (snd (BatchSpend l ctx buckets s))
           = [BatchGetCall (WithoutCancel ctx) (map key buckets)] \<and>
         store (snd (BatchSpend l ctx buckets s)) = store s \<and>
         fst (BatchSpend l ctx buckets s) \<noteq> Inr disabledLimitDecision"
proof -
  have c: "\<not> list_ex (\<lambda>bucket. cost bucket \<le> 0) buckets"
    using assms(2) by (auto simp: list_ex_iff)
  obtain r s1 where g: "src_BatchGet (WithoutCancel ctx) (map key buckets) s = (r, s1)"
    by (cases "src_BatchGet (WithoutCancel ctx) (map key buckets) s")
  note e = src_BatchGet_effect [OF g]
  have r: "r = (case fault_now s of None \<Rightarrow> Inr (store s |` set (map key buckets)) | Some e \<Rightarrow> Inl e)"
    using g by (auto simp: src_BatchGet_def split: option.splits)
  have lp: "spend_loop l tats (clk l) buckets spend_start = Inr spend_start" for tats
    using assms(3) by (rule spend_loop_all_disabled)
  have bs: "BatchSpend l ctx buckets s
              = ((case fault_now s of None \<Rightarrow> Inr (consolidated spend_start) | Some e \<Rightarrow> Inl e), s1)"
  proof -
    have n: "newTATs spend_start = []" by (simp add: spend_start_def)
    show ?thesis
      using assms(1) c g r by (simp add: BatchSpend_def lp n split: option.splits)
  qed
  have v: "consolidated spend_start = \<lparr>Allowed = True, Remaining = 9223372036854775807, RetryIn = 0,
                             ResetIn = 0, newTAT = zeroTime\<rparr>"
    by (simp add: consolidated_def spend_start_def MaxInt64_def)
  show ?thesis
    using e by (simp add: bs v calls_since_def disabledLimitDecision_def split: option.splits)
qed

theorem BatchSpend_all_disabled_witness:
  "fst (BatchSpend demo_limiter demo_ctx [bucket_of 2 ''2:B'' 5, bucket_of 2 ''2:C'' 4] demo_source)
     = Inr \<lparr>Allowed = True, Remaining = 9223372036854775807, RetryIn = 0, ResetIn = 0,
            newTAT = zeroTime\<rparr> \<and>
   calls_since demo_source
     (snd (BatchSpend demo_limiter demo_ctx [bucket_of 2 ''2:B'' 5, bucket_of 2 ''2:C'' 4] demo_source))
     = [BatchGetCall (WithoutCancel demo_ctx) [''2:B'', ''2:C'']] \<and>
   store (snd (BatchSpend demo_limiter demo_ctx [bucket_of 2 ''2:B'' 5, bucket_of 2 ''2:C'' 4] demo_source))
     = store demo_source"
proof -
  let ?bs = "[bucket_of 2 ''2:B'' 5, bucket_of 2 ''2:C'' 4]"
  have a: "?bs \<noteq> []" by simp
  have b: "\<forall>bucket \<in> set ?bs. 0 < cost bucket" by (simp add: bucket_of_def)
  have c: "\<forall>bucket \<in> set ?bs. getLimit demo_limiter (name bucket) (key bucket) = Inl errLimitDisabled"
    by (simp add: bucket_of_def demo_limiter_def getLimit_def)
  have f: "fault_now demo_source = None" by (simp add: fault_now_def demo_source_def)
  from BatchSpend_all_disabled [OF a b c, of demo_ctx demo_source] show ?thesis
    by (simp add: f) (simp add: bucket_of_def)
qed

section \<open>The loops of the batch operations\<close>

lemma spend_loop_record_all:
  "spend_loop l tats (clk l) buckets b = Inr b' \<Longrightarrow>
     b' = record_all (\<and>) (spend_decisions l tats buckets) b"
proof (induction buckets arbitrary: b)
  case Nil
  then show ?case by simp
next
  case (Cons bucket buckets)
  show ?case
  proof (cases "getLimit l (name bucket) (key bucket)")
    case (Inl err)
    with Cons show ?thesis by (simp split: if_splits)
  next
    case (Inr lim)
    with Cons show ?thesis by (simp add: Let_def)
  qed
qed

lemma refund_loop_record_all:
  "refund_loop l tats buckets b = Inr b' \<Longrightarrow>
     b' = record_all (\<or>) (refund_decisions l tats buckets) b"
proof (induction buckets arbitrary: b)
  case Nil
  then show ?case by simp
next
  case (Cons bucket buckets)
  show ?case
  proof (cases "getLimit l (name bucket) (key bucket)")
    case (Inl err)
    with Cons show ?thesis by (simp split: if_splits)
  next
    case (Inr lim)
    show ?thesis
    proof (cases "tats (key bucket)")
      case None
      with Cons Inr show ?thesis by simp
    next
      case (Some tat)
      with Cons Inr show ?thesis by (cases "IsZero tat") (simp_all add: Let_def)
    qed
  qed
qed

lemma getLimit_valid:
  "isValid l n \<Longrightarrow> getLimit l n k = Inl err \<Longrightarrow> err = errLimitDisabled"
  by (auto simp: getLimit_def split: if_splits option.splits)

lemma spend_loop_total:
  "\<forall>bucket \<in> set buckets. isValid l (name bucket) \<Longrightarrow>
     \<exists>b'. spend_loop l tats nowTAT buckets b = Inr b'"
proof (induction buckets arbitrary: b)
  case Nil
  then show ?case by simp
next
  case (Cons bucket buckets)
  show ?case
  proof (cases "getLimit l (name bucket) (key bucket)")
    case (Inl err)
    with Cons.prems have "err = errLimitDisabled" by (auto dest: getLimit_valid)
    with Inl Cons show ?thesis by (simp add: errors_Is_def)
  next
    case (Inr lim)
    with Cons show ?thesis by (simp add: Let_def)
  qed
qed

lemma refund_loop_total:
  "\<forall>bucket \<in> set buckets. isValid l (name bucket) \<Longrightarrow>
     \<exists>b'. refund_loop l tats buckets b = Inr b'"
proof (induction buckets arbitrary: b)
  case Nil
  then show ?case by simp
next
  case (Cons bucket buckets)
  show ?case
  proof (cases "getLimit l (name bucket) (key bucket)")
    case (Inl err)
    with Cons.prems have "err = errLimitDisabled" by (auto dest: getLimit_valid)
    with Inl Cons show ?thesis by (simp add: errors_Is_def)
  next
    case (Inr lim)
    with Cons show ?thesis by (simp add: Let_def split: option.splits)
  qed
qed

lemma update_not_Nil: "AList.update k v al \<noteq> []"
  by (cases al) simp_all

lemma record_decision_allowed: "allowed (record_decision k d a b) = a"
  by (simp add: record_decision_def)

lemma record_decision_newTATs:
  "newTATs (record_decision k d a b) =
     (if Allowed d then AList.update k (newTAT d) (newTATs b) else newTATs b)"
  by (simp add: record_decision_def)

lemma record_all_and: "allowed (record_all (\<and>) ds b) = (allowed b \<and> all_allowed ds)"
proof (induction ds arbitrary: b)
  case Nil
  show ?case by (simp add: all_allowed_def)
next
  case (Cons kd ds)
  obtain k d where kd: "kd = (k, d)" by (cases kd)
  have "all_allowed (kd # ds) = (Allowed d \<and> all_allowed ds)"
    by (simp add: all_allowed_def kd)
  then show ?case
    by (simp add: kd Cons.IH record_decision_allowed conj_assoc)
qed

lemma record_all_or: "allowed (record_all (\<or>) ds b) = (allowed b \<or> some_allowed ds)"
proof (induction ds arbitrary: b)
  case Nil
  show ?case by (simp add: some_allowed_def)
next
  case (Cons kd ds)
  obtain k d where kd: "kd = (k, d)" by (cases kd)
  have "some_allowed (kd # ds) = (Allowed d \<or> some_allowed ds)"
    by (simp add: some_allowed_def kd)
  then show ?case
    by (simp add: kd Cons.IH record_decision_allowed disj_assoc)
qed

lemma record_all_empty:
  "(newTATs (record_all f ds b) = []) = (newTATs b = [] \<and> \<not> some_allowed ds)"
proof (induction ds arbitrary: b)
  case Nil
  show ?case by (simp add: some_allowed_def)
next
  case (Cons kd ds)
  obtain k d where kd: "kd = (k, d)" by (cases kd)
  have "some_allowed (kd # ds) = (Allowed d \<or> some_allowed ds)"
    by (simp add: some_allowed_def kd)
  then show ?case
    by (simp add: kd Cons.IH record_decision_newTATs update_not_Nil)
qed

lemma record_all_distinct:
  "distinct (map fst (newTATs b)) \<Longrightarrow> distinct (map fst (newTATs (record_all f ds b)))"
proof (induction ds arbitrary: b)
  case Nil
  then show ?case by simp
next
  case (Cons kd ds)
  obtain k d where kd: "kd = (k, d)" by (cases kd)
  have "distinct (map fst (newTATs (record_decision k d (f (allowed b) (Allowed d)) b)))"
    using Cons.prems by (simp add: record_decision_newTATs distinct_update)
  then show ?case
    by (simp add: kd Cons.IH)
qed

lemma last_allowed_Cons:
  "last_allowed k ((k', d) # ds) =
     (case last_allowed k ds of
        Some t \<Rightarrow> Some t
      | None \<Rightarrow> if k' = k \<and> Allowed d then Some (newTAT d) else None)"
proof (cases "filter (\<lambda>(k', d). k' = k \<and> Allowed d) ds")
  case Nil
  then show ?thesis by (simp add: last_allowed_def)
next
  case (Cons x xs)
  then show ?thesis by (simp add: last_allowed_def)
qed

lemma record_all_map_of:
  "map_of (newTATs (record_all f ds b)) k =
     (case last_allowed k ds of Some t \<Rightarrow> Some t | None \<Rightarrow> map_of (newTATs b) k)"
proof (induction ds arbitrary: b)
  case Nil
  then show ?case by (simp add: last_allowed_def)
next
  case (Cons kd ds)
  obtain k' d where kd: "kd = (k', d)" by (cases kd)
  show ?case
    by (simp add: kd Cons.IH last_allowed_Cons record_decision_newTATs update_conv'
        split: option.splits)
qed

lemma spend_loop_result:
  assumes "\<forall>bucket \<in> set buckets. isValid l (name bucket)"
  shows "spend_loop l tats (clk l) buckets spend_start
           = Inr (record_all (\<and>) (spend_decisions l tats buckets) spend_start)"
proof -
  obtain b where b: "spend_loop l tats (clk l) buckets spend_start = Inr b"
    using spend_loop_total [OF assms] by blast
  from spend_loop_record_all [OF b] b show ?thesis by simp
qed

lemma refund_loop_result:
  assumes "\<forall>bucket \<in> set buckets. isValid l (name bucket)"
  shows "refund_loop l tats buckets refund_start
           = Inr (record_all (\<or>) (refund_decisions l tats buckets) refund_start)"
proof -
  obtain b where b: "refund_loop l tats buckets refund_start = Inr b"
    using refund_loop_total [OF assms] by blast
  from refund_loop_record_all [OF b] b show ?thesis by simp
qed

lemma start_fields:
  "allowed spend_start = True" "newTATs spend_start = []"
  "allowed refund_start = False" "newTATs refund_start = []"
  by (simp_all add: spend_start_def refund_start_def)

lemma consolidated_Allowed: "Allowed (consolidated b) = allowed b"
  by (simp add: consolidated_def)

lemma BatchGet_answer:
  assumes "fst (src_BatchGet c ks s) = Inr tats"
  obtains s1 where "src_BatchGet c ks s = (Inr tats, s1)"
    and "calls s1 = calls s @ [BatchGetCall c ks]" and "store s1 = store s"
    and "tats = store s |` set ks"
proof -
  obtain s1 where g: "src_BatchGet c ks s = (Inr tats, s1)"
    using assms by (cases "src_BatchGet c ks s") simp
  have t: "tats = store s |` set ks"
    using g by (simp add: src_BatchGet_def split: option.splits)
  from src_BatchGet_effect [OF g]
  have e: "calls s1 = calls s @ [BatchGetCall c ks]" "store s1 = store s"
    by simp_all
  show ?thesis by (rule that [OF g e(1) e(2) t])
qed

lemma BatchSet_writes:
  assumes "calls s1 = calls s @ [BatchGetCall c ks]"
  shows "calls_since s (snd (src_BatchSet c m s1)) = [BatchGetCall c ks, BatchSetCall c m]"
proof -
  obtain r s2 where w: "src_BatchSet c m s1 = (r, s2)"
    by (cases "src_BatchSet c m s1")
  from src_BatchSet_effect [OF w] assms show ?thesis
    by (simp add: w calls_since_def)
qed

lemma BatchSet_result:
  "fst (src_BatchSet c m s1) = fault_now s1"
  by (simp add: src_BatchSet_def split: option.splits)

lemma BatchSpend_after_loop:
  assumes "buckets \<noteq> []" and "\<forall>bucket \<in> set buckets. 0 < cost bucket"
    and "src_BatchGet (WithoutCancel ctx) (map key buckets) s = (Inr tats, s1)"
    and "spend_loop l tats (clk l) buckets spend_start = Inr b"
  shows "BatchSpend l ctx buckets s =
           (if newTATs b \<noteq> [] \<and> allowed b
            then (case fault_now s1 of
                    Some err \<Rightarrow> Inl err
                  | None \<Rightarrow> Inr (consolidated b),
                  snd (src_BatchSet (WithoutCancel ctx) (newTATs b) s1))
            else (Inr (consolidated b), s1))"
proof -
  have c: "\<not> list_ex (\<lambda>bucket. cost bucket \<le> 0) buckets"
    using assms(2) by (auto simp: list_ex_iff)
  obtain r s2 where w: "src_BatchSet (WithoutCancel ctx) (newTATs b) s1 = (r, s2)"
    by (cases "src_BatchSet (WithoutCancel ctx) (newTATs b) s1")
  from src_BatchSet_effect [OF w] have r: "r = fault_now s1" by simp
  show ?thesis
    using assms(1) c by (simp add: BatchSpend_def assms(3,4) w r split: option.splits)
qed

lemma BatchRefund_after_loop:
  assumes "buckets \<noteq> []" and "\<forall>bucket \<in> set buckets. 0 < cost bucket"
    and "src_BatchGet (WithoutCancel ctx) (map key buckets) s = (Inr tats, s1)"
    and "refund_loop l tats buckets refund_start = Inr b"
  shows "BatchRefund l ctx buckets s =
           (if newTATs b \<noteq> []
            then (case fault_now s1 of
                    Some err \<Rightarrow> Inl err
                  | None \<Rightarrow> Inr (consolidated b),
                  snd (src_BatchSet (WithoutCancel ctx) (newTATs b) s1))
            else (Inr (consolidated b), s1))"
proof -
  have c: "\<not> list_ex (\<lambda>bucket. cost bucket \<le> 0) buckets"
    using assms(2) by (auto simp: list_ex_iff)
  obtain r s2 where w: "src_BatchSet (WithoutCancel ctx) (newTATs b) s1 = (r, s2)"
    by (cases "src_BatchSet (WithoutCancel ctx) (newTATs b) s1")
  from src_BatchSet_effect [OF w] have r: "r = fault_now s1" by simp
  show ?thesis
    using assms(1) c by (simp add: BatchRefund_def assms(3,4) w r split: option.splits)
qed

lemma BatchSpend_denied_no_write:
  assumes "fst (src_BatchGet (WithoutCancel ctx) (map key buckets) s) = Inr tats"
    and "\<not> all_allowed (spend_decisions l tats buckets)"
  shows "filter is_write (calls_since s (snd (BatchSpend l ctx buckets s))) = [] \<and>
         store (snd (BatchSpend l ctx buckets s)) = store s"
proof -
  obtain s1 where g: "src_BatchGet (WithoutCancel ctx) (map key buckets) s = (Inr tats, s1)"
    and c1: "calls s1 = calls s @ [BatchGetCall (WithoutCancel ctx) (map key buckets)]"
    and st: "store s1 = store s"
    using assms(1) by (rule BatchGet_answer)
  have quiet: "filter is_write (calls_since s s1) = []"
    using c1 by (simp add: calls_since_def)
  consider (invalid) "buckets = [] \<or> list_ex (\<lambda>bucket. cost bucket \<le> 0) buckets"
    | (err) e where "buckets \<noteq> []" "\<not> list_ex (\<lambda>bucket. cost bucket \<le> 0) buckets"
        "spend_loop l tats (clk l) buckets spend_start = Inl e"
    | (complete) b where "buckets \<noteq> []" "\<not> list_ex (\<lambda>bucket. cost bucket \<le> 0) buckets"
        "spend_loop l tats (clk l) buckets spend_start = Inr b"
    by (cases "spend_loop l tats (clk l) buckets spend_start") auto
  then show ?thesis
  proof cases
    case invalid
    then have "snd (BatchSpend l ctx buckets s) = s"
      by (auto simp: BatchSpend_def)
    then show ?thesis by (simp add: calls_since_def)
  next
    case err
    then have "snd (BatchSpend l ctx buckets s) = s1"
      by (simp add: BatchSpend_def g)
    then show ?thesis using quiet st by simp
  next
    case complete
    have "allowed b = all_allowed (spend_decisions l tats buckets)"
      using spend_loop_record_all [OF complete(3)] by (simp add: record_all_and start_fields)
    then have "\<not> allowed b" using assms(2) by simp
    then have "snd (BatchSpend l ctx buckets s) = s1"
      using complete by (simp add: BatchSpend_def g)
    then show ?thesis using quiet st by simp
  qed
qed

section \<open>What the batch operations write\<close>

text \<open>
  Claim C2. Whatever else happens in a \<open>BatchSpend\<close>, if one of the buckets it evaluates
  is denied then no write is issued and the stored TATs are unchanged. For a non-empty
  batch with positive costs and valid names whose batch-get succeeds, the consolidated
  decision is allowed exactly when every evaluated bucket is, the map of new TATs is not
  empty exactly when some evaluated bucket is allowed, and the writes of the call are one
  batch-set of that map when both hold and none otherwise; the call returns the
  consolidated decision unless that batch-set fails.
\<close>
theorem BatchSpend_persistence:
  "(fst (src_BatchGet (WithoutCancel ctx) (map key buckets) s) = Inr tats \<and>
    \<not> all_allowed (spend_decisions l tats buckets) \<longrightarrow>
      filter is_write (calls_since s (snd (BatchSpend l ctx buckets s))) = [] \<and>
      store (snd (BatchSpend l ctx buckets s)) = store s) \<and>
   (buckets \<noteq> [] \<and> (\<forall>bucket \<in> set buckets. 0 < cost bucket \<and> isValid l (name bucket)) \<and>
    fst (src_BatchGet (WithoutCancel ctx) (map key buckets) s) = Inr tats \<longrightarrow>
      (\<exists>b. spend_loop l tats (clk l) buckets spend_start = Inr b \<and>
           Allowed (consolidated b) = all_allowed (spend_decisions l tats buckets) \<and>
           (newTATs b \<noteq> []) = some_allowed (spend_decisions l tats buckets) \<and>
           filter is_write (calls_since s (snd (BatchSpend l ctx buckets s)))
             = (if Allowed (consolidated b) \<and> some_allowed (spend_decisions l tats buckets)
                then [BatchSetCall (WithoutCancel ctx) (newTATs b)] else []) \<and>
           fst (BatchSpend l ctx buckets s)
             = (case (if Allowed (consolidated b) \<and> some_allowed (spend_decisions l tats buckets)
                      then fault_now (snd (src_BatchGet (WithoutCancel ctx) (map key buckets) s))
                      else None) of
                  None \<Rightarrow> Inr (consolidated b)
                | Some err \<Rightarrow> Inl err)))"
proof (intro conjI impI)
  assume "fst (src_BatchGet (WithoutCancel ctx) (map key buckets) s) = Inr tats \<and>
    \<not> all_allowed (spend_decisions l tats buckets)"
  then show "filter is_write (calls_since s (snd (BatchSpend l ctx buckets s))) = []"
    and "store (snd (BatchSpend l ctx buckets s)) = store s"
    using BatchSpend_denied_no_write [of ctx buckets s tats l] by simp_all
next
  let ?ds = "spend_decisions l tats buckets"
  let ?b = "record_all (\<and>) ?ds spend_start"
  assume h: "buckets \<noteq> [] \<and> (\<forall>bucket \<in> set buckets. 0 < cost bucket \<and> isValid l (name bucket)) \<and>
    fst (src_BatchGet (WithoutCancel ctx) (map key buckets) s) = Inr tats"
  then have ne: "buckets \<noteq> []" and pos: "\<forall>bucket \<in> set buckets. 0 < cost bucket"
    and val: "\<forall>bucket \<in> set buckets. isValid l (name bucket)"
    and ans: "fst (src_BatchGet (WithoutCancel ctx) (map key buckets) s) = Inr tats"
    by simp_all
  obtain s1 where g: "src_BatchGet (WithoutCancel ctx) (map key buckets) s = (Inr tats, s1)"
    and c1: "calls s1 = calls s @ [BatchGetCall (WithoutCancel ctx) (map key buckets)]"
    using ans by (rule BatchGet_answer)
  have lp: "spend_loop l tats (clk l) buckets spend_start = Inr ?b"
    using val by (rule spend_loop_result)
  have al: "allowed ?b = all_allowed ?ds"
    by (simp add: record_all_and start_fields)
  have em: "(newTATs ?b \<noteq> []) = some_allowed ?ds"
    using record_all_empty [of "(\<and>)" ?ds spend_start] by (simp add: start_fields)
  note run = BatchSpend_after_loop [OF ne pos g lp]
  have wr: "filter is_write (calls_since s (snd (BatchSpend l ctx buckets s)))
             = (if all_allowed ?ds \<and> some_allowed ?ds
                then [BatchSetCall (WithoutCancel ctx) (newTATs ?b)] else [])"
    using c1 by (simp add: run al em BatchSet_writes) (simp add: calls_since_def)
  have rs: "fst (BatchSpend l ctx buckets s)
             = (case (if all_allowed ?ds \<and> some_allowed ?ds then fault_now s1 else None) of
                  None \<Rightarrow> Inr (consolidated ?b)
                | Some err \<Rightarrow> Inl err)"
    by (simp add: run al em)
  show "\<exists>b. spend_loop l tats (clk l) buckets spend_start = Inr b \<and>
           Allowed (consolidated b) = all_allowed ?ds \<and>
           (newTATs b \<noteq> []) = some_allowed ?ds \<and>
           filter is_write (calls_since s (snd (BatchSpend l ctx buckets s)))
             = (if Allowed (consolidated b) \<and> some_allowed ?ds
                then [BatchSetCall (WithoutCancel ctx) (newTATs b)] else []) \<and>
           fst (BatchSpend l ctx buckets s)
             = (case (if Allowed (consolidated b) \<and> some_allowed ?ds
                      then fault_now (snd (src_BatchGet (WithoutCancel ctx) (map key buckets) s))
                      else None) of
                  None \<Rightarrow> Inr (consolidated b)
                | Some err \<Rightarrow> Inl err)"
    using lp al em wr rs by (intro exI [of _ ?b]) (simp add: consolidated_Allowed g)
qed

theorem BatchSpend_persistence_witness:
  "filter is_write (calls_since demo_source
     (snd (BatchSpend demo_limiter demo_ctx [bucket_of 1 ''1:A'' 5, bucket_of 1 ''1:B'' 5] demo_source)))
     = [] \<and>
   store (snd (BatchSpend demo_limiter demo_ctx [bucket_of 1 ''1:A'' 5, bucket_of 1 ''1:B'' 5] demo_source))
     = store demo_source \<and>
   filter is_write (calls_since demo_source
     (snd (BatchSpend demo_limiter demo_ctx [bucket_of 1 ''1:B'' 5, bucket_of 1 ''1:C'' 4] demo_source)))
     = [BatchSetCall (WithoutCancel demo_ctx) [(''1:B'', 5000000000), (''1:C'', 4000000000)]] \<and>
   fst (BatchSpend demo_limiter demo_ctx [bucket_of 1 ''1:B'' 5, bucket_of 1 ''1:C'' 4] demo_source)
     = Inr \<lparr>Allowed = True, Remaining = 5, RetryIn = 0, ResetIn = 5000000000,
            newTAT = 5000000000\<rparr>"
proof -
  let ?ab = "[bucket_of 1 ''1:A'' 5, bucket_of 1 ''1:B'' 5]"
  let ?bc = "[bucket_of 1 ''1:B'' 5, bucket_of 1 ''1:C'' 4]"
  let ?tab = "store demo_source |` set (map key ?ab)"
  let ?tbc = "store demo_source |` set (map key ?bc)"
  let ?b = "\<lparr>minRemaining = 5, maxRetryIn = 0, maxResetIn = 5000000000,
             maxNewTAT = 5000000000,
             newTATs = [(''1:B'', 5000000000), (''1:C'', 4000000000)], allowed = True\<rparr>"
  have f: "fault_now demo_source = None"
    by (simp add: fault_now_def demo_source_def)
  have gab: "fst (src_BatchGet (WithoutCancel demo_ctx) (map key ?ab) demo_source) = Inr ?tab"
    by (simp add: src_BatchGet_def f)
  have gbc: "fst (src_BatchGet (WithoutCancel demo_ctx) (map key ?bc) demo_source) = Inr ?tbc"
    by (simp add: src_BatchGet_def f)
  have f1: "fault_now (snd (src_BatchGet (WithoutCancel demo_ctx) (map key ?bc) demo_source)) = None"
    by (simp add: src_BatchGet_def f) (simp add: fault_now_def issue_def demo_source_def)
  have dab: "\<not> all_allowed (spend_decisions demo_limiter ?tab ?ab)"
    by (simp add: demo_defs run_defs batch_defs)
  have vbc: "?bc \<noteq> [] \<and>
     (\<forall>bucket \<in> set ?bc. 0 < cost bucket \<and> isValid demo_limiter (name bucket))"
    by (simp add: bucket_of_def demo_limiter_def)
  have dbc: "all_allowed (spend_decisions demo_limiter ?tbc ?bc)"
    "some_allowed (spend_decisions demo_limiter ?tbc ?bc)"
    by (simp_all add: demo_defs run_defs batch_defs)
  have lbc: "spend_loop demo_limiter ?tbc (clk demo_limiter) ?bc spend_start = Inr ?b"
    by (simp add: demo_defs run_defs batch_defs)
  have cb: "consolidated ?b = \<lparr>Allowed = True, Remaining = 5, RetryIn = 0,
     ResetIn = 5000000000, newTAT = 5000000000\<rparr>"
    by (simp add: consolidated_def)
  from BatchSpend_persistence [of demo_ctx ?ab demo_source ?tab demo_limiter] gab dab
  have p1: "filter is_write (calls_since demo_source
       (snd (BatchSpend demo_limiter demo_ctx ?ab demo_source))) = []"
    "store (snd (BatchSpend demo_limiter demo_ctx ?ab demo_source)) = store demo_source"
    by blast+
  from BatchSpend_persistence [of demo_ctx ?bc demo_source ?tbc demo_limiter] vbc gbc
  obtain b where b: "spend_loop demo_limiter ?tbc (clk demo_limiter) ?bc spend_start = Inr b"
    and a: "Allowed (consolidated b) = all_allowed (spend_decisions demo_limiter ?tbc ?bc)"
    and w: "filter is_write (calls_since demo_source
              (snd (BatchSpend demo_limiter demo_ctx ?bc demo_source)))
             = (if Allowed (consolidated b) \<and> some_allowed (spend_decisions demo_limiter ?tbc ?bc)
                then [BatchSetCall (WithoutCancel demo_ctx) (newTATs b)] else [])"
    and r: "fst (BatchSpend demo_limiter demo_ctx ?bc demo_source)
             = (case (if Allowed (consolidated b) \<and> some_allowed (spend_decisions demo_limiter ?tbc ?bc)
                      then fault_now (snd (src_BatchGet (WithoutCancel demo_ctx) (map key ?bc) demo_source))
                      else None) of
                  None \<Rightarrow> Inr (consolidated b)
                | Some err \<Rightarrow> Inl err)"
    by blast
  have eq: "b = ?b" using b lbc by simp
  have p2: "filter is_write (calls_since demo_source
              (snd (BatchSpend demo_limiter demo_ctx ?bc demo_source)))
             = [BatchSetCall (WithoutCancel demo_ctx) [(''1:B'', 5000000000), (''1:C'', 4000000000)]]"
    using w a dbc by (simp add: eq)
  have p3: "fst (BatchSpend demo_limiter demo_ctx ?bc demo_source) = Inr (consolidated ?b)"
    using r a dbc f1 by (simp add: eq)
  show ?thesis
    using p1 p2 p3 cb by simp
qed

text \<open>
  Claim C3. For a non-empty \<open>BatchRefund\<close> with positive costs and valid names whose
  batch-get succeeds, the consolidated decision is allowed exactly when the refund of
  some evaluated bucket is; the writes of the call are one batch-set when some evaluated
  bucket yielded a new TAT and none otherwise, with no other condition; and that batch-set
  holds, for every key, the new TAT of the key's last allowed refund and nothing else.
\<close>
theorem BatchRefund_permissive:
  "buckets \<noteq> [] \<and> (\<forall>bucket \<in> set buckets. 0 < cost bucket \<and> isValid l (name bucket)) \<and>
   fst (src_BatchGet (WithoutCancel ctx) (map key buckets) s) = Inr tats \<longrightarrow>
     (\<exists>b. refund_loop l tats buckets refund_start = Inr b \<and>
          Allowed (consolidated b) = some_allowed (refund_decisions l tats buckets) \<and>
          filter is_write (calls_since s (snd (BatchRefund l ctx buckets s)))
            = (if some_allowed (refund_decisions l tats buckets)
               then [BatchSetCall (WithoutCancel ctx) (newTATs b)] else []) \<and>
          (\<forall>k. map_of (newTATs b) k = last_allowed k (refund_decisions l tats buckets)) \<and>
          distinct (map fst (newTATs b)) \<and>
          fst (BatchRefund l ctx buckets s)
            = (case (if some_allowed (refund_decisions l tats buckets)
                     then fault_now (snd (src_BatchGet (WithoutCancel ctx) (map key buckets) s))
                     else None) of
                 None \<Rightarrow> Inr (consolidated b)
               | Some err \<Rightarrow> Inl err))"
proof
  let ?ds = "refund_decisions l tats buckets"
  let ?b = "record_all (\<or>) ?ds refund_start"
  assume h: "buckets \<noteq> [] \<and> (\<forall>bucket \<in> set buckets. 0 < cost bucket \<and> isValid l (name bucket)) \<and>
    fst (src_BatchGet (WithoutCancel ctx) (map key buckets) s) = Inr tats"
  then have ne: "buckets \<noteq> []" and pos: "\<forall>bucket \<in> set buckets. 0 < cost bucket"
    and val: "\<forall>bucket \<in> set buckets. isValid l (name bucket)"
    and ans: "fst (src_BatchGet (WithoutCancel ctx) (map key buckets) s) = Inr tats"
    by simp_all
  obtain s1 where g: "src_BatchGet (WithoutCancel ctx) (map key buckets) s = (Inr tats, s1)"
    and c1: "calls s1 = calls s @ [BatchGetCall (WithoutCancel ctx) (map key buckets)]"
    using ans by (rule BatchGet_answer)
  have lp: "refund_loop l tats buckets refund_start = Inr ?b"
    using val by (rule refund_loop_result)
  have al: "allowed ?b = some_allowed ?ds"
    by (simp add: record_all_or start_fields)
  have em: "(newTATs ?b \<noteq> []) = some_allowed ?ds"
    using record_all_empty [of "(\<or>)" ?ds refund_start] by (simp add: start_fields)
  have mp: "map_of (newTATs ?b) k = last_allowed k ?ds" for k
    by (simp add: record_all_map_of start_fields split: option.splits)
  have di: "distinct (map fst (newTATs ?b))"
    by (rule record_all_distinct) (simp add: start_fields)
  note run = BatchRefund_after_loop [OF ne pos g lp]
  have wr: "filter is_write (calls_since s (snd (BatchRefund l ctx buckets s)))
             = (if some_allowed ?ds then [BatchSetCall (WithoutCancel ctx) (newTATs ?b)] else [])"
    using c1 by (simp add: run em BatchSet_writes) (simp add: calls_since_def)
  have rs: "fst (BatchRefund l ctx buckets s)
             = (case (if some_allowed ?ds then fault_now s1 else None) of
                  None \<Rightarrow> Inr (consolidated ?b)
                | Some err \<Rightarrow> Inl err)"
    by (simp add: run em)
  show "\<exists>b. refund_loop l tats buckets refund_start = Inr b \<and>
          Allowed (consolidated b) = some_allowed ?ds \<and>
          filter is_write (calls_since s (snd (BatchRefund l ctx buckets s)))
            = (if some_allowed ?ds
               then [BatchSetCall (WithoutCancel ctx) (newTATs b)] else []) \<and>
          (\<forall>k. map_of (newTATs b) k = last_allowed k ?ds) \<and>
          distinct (map fst (newTATs b)) \<and>
          fst (BatchRefund l ctx buckets s)
            = (case (if some_allowed ?ds
                     then fault_now (snd (src_BatchGet (WithoutCancel ctx) (map key buckets) s))
                     else None) of
                 None \<Rightarrow> Inr (consolidated b)
               | Some err \<Rightarrow> Inl err)"
    using lp al wr mp di rs by (intro exI [of _ ?b]) (simp add: consolidated_Allowed g)
qed

theorem BatchRefund_permissive_witness:
  "filter is_write (calls_since demo_source
     (snd (BatchRefund demo_limiter demo_ctx [bucket_of 1 ''1:A'' 5, bucket_of 1 ''1:B'' 5] demo_source)))
     = [BatchSetCall (WithoutCancel demo_ctx) [(''1:A'', 4000000000)]] \<and>
   fst (BatchRefund demo_limiter demo_ctx [bucket_of 1 ''1:A'' 5, bucket_of 1 ''1:B'' 5] demo_source)
     = Inr \<lparr>Allowed = True, Remaining = 6, RetryIn = 0, ResetIn = 4000000000,
            newTAT = 4000000000\<rparr>"
proof -
  let ?ab = "[bucket_of 1 ''1:A'' 5, bucket_of 1 ''1:B'' 5]"
  let ?tab = "store demo_source |` set (map key ?ab)"
  let ?b = "\<lparr>minRemaining = 6, maxRetryIn = 0, maxResetIn = 4000000000,
             maxNewTAT = 4000000000, newTATs = [(''1:A'', 4000000000)], allowed = True\<rparr>"
  have f: "fault_now demo_source = None"
    by (simp add: fault_now_def demo_source_def)
  have g: "fst (src_BatchGet (WithoutCancel demo_ctx) (map key ?ab) demo_source) = Inr ?tab"
    by (simp add: src_BatchGet_def f)
  have f1: "fault_now (snd (src_BatchGet (WithoutCancel demo_ctx) (map key ?ab) demo_source)) = None"
    by (simp add: src_BatchGet_def f) (simp add: fault_now_def issue_def demo_source_def)
  have v: "?ab \<noteq> [] \<and>
     (\<forall>bucket \<in> set ?ab. 0 < cost bucket \<and> isValid demo_limiter (name bucket))"
    by (simp add: bucket_of_def demo_limiter_def)
  have d: "some_allowed (refund_decisions demo_limiter ?tab ?ab)"
    by (simp add: demo_defs run_defs batch_defs)
  have lp: "refund_loop demo_limiter ?tab ?ab refund_start = Inr ?b"
    by (simp add: demo_defs run_defs batch_defs)
  have cb: "consolidated ?b = \<lparr>Allowed = True, Remaining = 6, RetryIn = 0,
     ResetIn = 4000000000, newTAT = 4000000000\<rparr>"
    by (simp add: consolidated_def)
  from BatchRefund_permissive [of ?ab demo_limiter demo_ctx demo_source ?tab] v g
  obtain b where b: "refund_loop demo_limiter ?tab ?ab refund_start = Inr b"
    and w: "filter is_write (calls_since demo_source
              (snd (BatchRefund demo_limiter demo_ctx ?ab demo_source)))
             = (if some_allowed (refund_decisions demo_limiter ?tab ?ab)
                then [BatchSetCall (WithoutCancel demo_ctx) (newTATs b)] else [])"
    and r: "fst (BatchRefund demo_limiter demo_ctx ?ab demo_source)
             = (case (if some_allowed (refund_decisions demo_limiter ?tab ?ab)
                      then fault_now (snd (src_BatchGet (WithoutCancel demo_ctx) (map key ?ab) demo_source))
                      else None) of
                  None \<Rightarrow> Inr (consolidated b)
                | Some err \<Rightarrow> Inl err)"
    by blast
  have eq: "b = ?b" using b lp by simp
  have p1: "filter is_write (calls_since demo_source
              (snd (BatchRefund demo_limiter demo_ctx ?ab demo_source)))
             = [BatchSetCall (WithoutCancel demo_ctx) [(''1:A'', 4000000000)]]"
    using w d by (simp add: eq)
  have p2: "fst (BatchRefund demo_limiter demo_ctx ?ab demo_source) = Inr (consolidated ?b)"
    using r d f1 by (simp add: eq)
  show ?thesis
    using p1 p2 cb by simp
qed




end
